theory Spec2Isabelle
  imports Main
begin

section \<open>Mr Vibrating: a command line argument parser\<close>

text \<open>
  This theory embeds \<^verbatim>\<open>mr-vibrating.hpp\<close> and its example program. A tuple of
  \<^verbatim>\<open>Option<T>\<close> is a list of descriptors, each carrying its template argument; the
  variables the descriptors are bound to by reference live in a store indexed by address; the
  \<^verbatim>\<open>while\<close> loop of \<^verbatim>\<open>parse_arguments\<close> is a partial function whose value is
  \<open>None\<close> when the loop does not return. Sizes and indices (\<^verbatim>\<open>unsigned\<close>,
  \<^verbatim>\<open>std::size_t\<close>) are natural numbers: \<^verbatim>\<open>i\<close> never exceeds \<^verbatim>\<open>argc\<close>, so
  no index wraps around.
\<close>

subsection \<open>Characters and strings\<close>

abbreviation dquote :: char where
  "dquote \<equiv> CHR 0x22"

abbreviation newline :: char where
  "newline \<equiv> CHR 0x0A"

abbreviation NUL :: char where
  "NUL \<equiv> CHR 0x00"

subsection \<open>Bound variables\<close>

text \<open>
  The template argument of a value-reading \<^verbatim>\<open>Option<T>\<close>: the ten types for which
  \<^verbatim>\<open>from_string\<close> and \<^verbatim>\<open>type_string\<close> are specialised. \<^verbatim>\<open>Option<bool>\<close> is
  the class specialisation \<open>Flag\<close>.
\<close>

datatype value_type =
  T_int | T_long | T_long_long
  | T_unsigned | T_unsigned_long | T_unsigned_long_long
  | T_float | T_double | T_long_double
  | T_string

datatype option_type = Flag | Reads value_type

text \<open>
  What a bound variable holds. An integer variable holds the mathematical value of its machine
  integer; a floating variable holds a value of a type \<open>'f\<close> the theory does not look into.
\<close>

datatype 'f val = Bool_val bool | Int_val int | Float_val 'f | String_val string

type_synonym 'f store = "nat \<Rightarrow> 'f val"

text \<open>
  The floating-point functions of the C and C++ libraries are parameters: a parse returns the
  value and the number of characters up to the end pointer; \<open>put_float\<close> is
  \<^verbatim>\<open>operator<<\<close> on a floating value.
\<close>

record 'f float_ops =
  strtof :: "string \<Rightarrow> 'f \<times> nat"
  strtod :: "string \<Rightarrow> 'f \<times> nat"
  strtold :: "string \<Rightarrow> 'f \<times> nat"
  put_float :: "'f \<Rightarrow> string"

subsection \<open>The integer parses of the C library, base 0\<close>

text \<open>
  \<^verbatim>\<open>strtol(s, &e, 0)\<close> skips white space, reads an optional sign, senses the base from
  the prefix (\<^verbatim>\<open>0x\<close> followed by a hexadecimal digit: 16; a leading \<^verbatim>\<open>0\<close>: 8;
  otherwise 10) and reads the longest run of digits of that base. With no digit there is no
  conversion: the result is 0 and the end pointer is the start of the string. Out of range
  values saturate. The widths are those of an LP64 platform: \<^verbatim>\<open>int\<close> has 32 bits,
  \<^verbatim>\<open>long\<close> and \<^verbatim>\<open>long long\<close> have 64.
\<close>

definition isspace :: "char \<Rightarrow> bool" where
  "isspace c = (c \<in> set [CHR '' '', CHR 0x09, CHR 0x0A, CHR 0x0B, CHR 0x0C, CHR 0x0D])"

definition digit_value :: "char \<Rightarrow> nat option" where
  "digit_value c =
     (let n = (of_char c :: nat) in
      if 48 \<le> n \<and> n \<le> 57 then Some (n - 48)
      else if 97 \<le> n \<and> n \<le> 122 then Some (n - 87)
      else if 65 \<le> n \<and> n \<le> 90 then Some (n - 55)
      else None)"

definition is_digit_in :: "nat \<Rightarrow> char \<Rightarrow> bool" where
  "is_digit_in base c = (case digit_value c of None \<Rightarrow> False | Some d \<Rightarrow> d < base)"

definition digits_value :: "nat \<Rightarrow> string \<Rightarrow> nat" where
  "digits_value base ds =
     foldl (\<lambda>acc c. acc * base + (case digit_value c of None \<Rightarrow> 0 | Some d \<Rightarrow> d)) 0 ds"

definition has_sign :: "string \<Rightarrow> bool" where
  "has_sign s = (case s of [] \<Rightarrow> False | c # _ \<Rightarrow> c = CHR ''-'' \<or> c = CHR ''+'')"

definition has_hex_prefix :: "string \<Rightarrow> bool" where
  "has_hex_prefix s =
     (case s of
        z # x # h # _ \<Rightarrow> z = CHR ''0'' \<and> (x = CHR ''x'' \<or> x = CHR ''X'') \<and> is_digit_in 16 h
      | _ \<Rightarrow> False)"

text \<open>
  The subject sequence of a string: whether it is negated, the magnitude of its digits, and
  the index of the end pointer; \<open>None\<close> when no conversion is performed.
\<close>

definition subject_sequence :: "string \<Rightarrow> (bool \<times> nat \<times> nat) option" where
  "subject_sequence s =
     (let after_space = dropWhile isspace s;
          after_sign = (if has_sign after_space then tl after_space else after_space);
          hex = has_hex_prefix after_sign;
          base = (if hex then 16 else if take 1 after_sign = ''0'' then 8 else 10);
          after_prefix = (if hex then drop 2 after_sign else after_sign);
          ds = takeWhile (is_digit_in base) after_prefix
      in if ds = [] then None
         else Some (take 1 after_space = ''-'', digits_value base ds,
                    length s - length after_prefix + length ds))"

definition strto_signed :: "nat \<Rightarrow> string \<Rightarrow> int \<times> nat" where
  "strto_signed bits s =
     (case subject_sequence s of
        None \<Rightarrow> (0, 0)
      | Some (negative, magnitude, e) \<Rightarrow>
          (if negative then max (- (2 ^ (bits - 1))) (- int magnitude)
           else min (2 ^ (bits - 1) - 1) (int magnitude), e))"

definition strto_unsigned :: "nat \<Rightarrow> string \<Rightarrow> int \<times> nat" where
  "strto_unsigned bits s =
     (case subject_sequence s of
        None \<Rightarrow> (0, 0)
      | Some (negative, magnitude, e) \<Rightarrow>
          (if 2 ^ bits \<le> int magnitude then 2 ^ bits - 1
           else if negative then (- int magnitude) mod 2 ^ bits
           else int magnitude, e))"

definition strtol :: "string \<Rightarrow> int \<times> nat" where
  "strtol = strto_signed 64"

definition strtoll :: "string \<Rightarrow> int \<times> nat" where
  "strtoll = strto_signed 64"

definition strtoul :: "string \<Rightarrow> int \<times> nat" where
  "strtoul = strto_unsigned 64"

definition strtoull :: "string \<Rightarrow> int \<times> nat" where
  "strtoull = strto_unsigned 64"

subsection \<open>from_string\<close>

text \<open>
  \<^verbatim>\<open>from_string(s, t)\<close> assigns the parsed value to \<open>t\<close>, whether or not the parse
  reached the end of \<open>s\<close>, and returns whether the end pointer is the end of \<open>s\<close>. The
  assignment converts the result of the parse to the type of \<open>t\<close>: a \<^verbatim>\<open>long\<close> is
  narrowed to \<^verbatim>\<open>int\<close> and an \<^verbatim>\<open>unsigned long\<close> to \<^verbatim>\<open>unsigned\<close> modulo
  \<open>2 ^ 32\<close>.
\<close>

definition from_string_INTEGRAL ::
  "(int \<Rightarrow> int) \<Rightarrow> (string \<Rightarrow> int \<times> nat) \<Rightarrow> string \<Rightarrow> nat \<Rightarrow> 'f store \<Rightarrow> bool \<times> 'f store" where
  "from_string_INTEGRAL convert function s t vars =
     (case function s of (v, e) \<Rightarrow> (e = length s, vars(t := Int_val (convert v))))"

definition from_string_FLOATING ::
  "(string \<Rightarrow> 'f \<times> nat) \<Rightarrow> string \<Rightarrow> nat \<Rightarrow> 'f store \<Rightarrow> bool \<times> 'f store" where
  "from_string_FLOATING function s t vars =
     (case function s of (v, e) \<Rightarrow> (e = length s, vars(t := Float_val v)))"

fun from_string :: "'f float_ops \<Rightarrow> value_type \<Rightarrow> string \<Rightarrow> nat \<Rightarrow> 'f store \<Rightarrow> bool \<times> 'f store" where
  "from_string fl T_string s t vars = (True, vars(t := String_val s))"
| "from_string fl T_int s t vars = from_string_INTEGRAL (signed_take_bit 31) strtol s t vars"
| "from_string fl T_long s t vars = from_string_INTEGRAL id strtol s t vars"
| "from_string fl T_long_long s t vars = from_string_INTEGRAL id strtoll s t vars"
| "from_string fl T_unsigned s t vars = from_string_INTEGRAL (take_bit 32) strtoul s t vars"
| "from_string fl T_unsigned_long s t vars = from_string_INTEGRAL id strtoul s t vars"
| "from_string fl T_unsigned_long_long s t vars = from_string_INTEGRAL id strtoull s t vars"
| "from_string fl T_float s t vars = from_string_FLOATING (strtof fl) s t vars"
| "from_string fl T_double s t vars = from_string_FLOATING (strtod fl) s t vars"
| "from_string fl T_long_double s t vars = from_string_FLOATING (strtold fl) s t vars"

subsection \<open>Option\<close>

text \<open>
  \<open>Value\<close> is the address of the bound variable. The constructor of \<^verbatim>\<open>Option<bool>\<close>
  takes no \<open>Required\<close> argument and assigns \<open>false\<close> to the bound variable.
\<close>

record Option_t =
  Type :: option_type
  Value :: nat
  HelpString :: string
  LongOpt :: string
  ShortOpt :: char
  Required :: bool

definition Option_value ::
  "value_type \<Rightarrow> nat \<Rightarrow> string \<Rightarrow> string \<Rightarrow> char \<Rightarrow> bool \<Rightarrow> Option_t" where
  "Option_value T value help_string long_opt short_opt required =
     \<lparr>Type = Reads T, Value = value, HelpString = help_string, LongOpt = long_opt,
      ShortOpt = short_opt, Required = required\<rparr>"

definition Option_bool ::
  "nat \<Rightarrow> string \<Rightarrow> string \<Rightarrow> char \<Rightarrow> 'f store \<Rightarrow> Option_t \<times> 'f store" where
  "Option_bool value help_string long_opt short_opt vars =
     (\<lparr>Type = Flag, Value = value, HelpString = help_string, LongOpt = long_opt,
       ShortOpt = short_opt, Required = False\<rparr>,
      vars(value := Bool_val False))"

definition Option_ReadsValue :: "Option_t \<Rightarrow> bool" where
  "Option_ReadsValue a = (case Type a of Flag \<Rightarrow> False | Reads T \<Rightarrow> True)"

subsection \<open>find_match\<close>

text \<open>
  \<open>FillValue\<close> is the bound member function
  \<^verbatim>\<open>std::bind(&Option<T>::ReadValue, &opt, _1)\<close>: the type \<open>T\<close> and the variable of the
  descriptor; \<open>None\<close> is the empty \<^verbatim>\<open>std::function\<close>.
\<close>

record OptionMatch =
  Matched :: bool
  ReadsValue :: bool
  Index :: nat
  FillValue :: "(value_type \<times> nat) option"

definition create_option_match :: "Option_t \<Rightarrow> nat \<Rightarrow> OptionMatch" where
  "create_option_match opt index =
     (case Type opt of
        Reads T \<Rightarrow>
          \<lparr>Matched = True, ReadsValue = True, Index = index, FillValue = Some (T, Value opt)\<rparr>
      | Flag \<Rightarrow>
          \<lparr>Matched = True, ReadsValue = False, Index = index, FillValue = None\<rparr>)"

function find_match_from :: "nat \<Rightarrow> Option_t list \<Rightarrow> string \<Rightarrow> OptionMatch" where
  "find_match_from N option_specifiers opt =
     (if N \<ge> length option_specifiers
      then \<lparr>Matched = False, ReadsValue = False, Index = 0, FillValue = None\<rparr>
      else
        let a = option_specifiers ! N in
        if (length opt = 1 \<and> ShortOpt a = opt ! 0) \<or> LongOpt a = opt
        then create_option_match a N
        else find_match_from (N + 1) option_specifiers opt)"
  by pat_completeness auto
termination
  by (relation "measure (\<lambda>(N, option_specifiers, opt). length option_specifiers - N)") auto

declare find_match_from.simps [simp del]

definition find_match :: "Option_t list \<Rightarrow> string \<Rightarrow> OptionMatch" where
  "find_match option_specifiers opt = find_match_from 0 option_specifiers opt"

definition ReadValue :: "'f float_ops \<Rightarrow> value_type \<times> nat \<Rightarrow> string \<Rightarrow> 'f store \<Rightarrow> bool \<times> 'f store" where
  "ReadValue fl bound s vars = (case bound of (T, value) \<Rightarrow> from_string fl T s value vars)"

subsection \<open>traverse_tuple\<close>

function traverse_tuple :: "('a \<Rightarrow> nat \<Rightarrow> 's \<Rightarrow> 's) \<Rightarrow> nat \<Rightarrow> 'a list \<Rightarrow> 's \<Rightarrow> 's" where
  "traverse_tuple f N ts s =
     (if N < length ts then traverse_tuple f (N + 1) ts (f (ts ! N) N s) else s)"
  by pat_completeness auto
termination
  by (relation "measure (\<lambda>(f, N, ts, s). length ts - N)") auto

declare traverse_tuple.simps [simp del]

subsection \<open>CheckRequiredOptions\<close>

text \<open>
  How a call leaves a function other than by running forever: it returns a string, an
  \<^verbatim>\<open>assert\<close> fails, or an empty \<^verbatim>\<open>std::function\<close> is called.
\<close>

datatype exit = Returned string | Assertion_failed | Bad_function_call

record CheckRequiredOptions =
  FoundOptions :: "bool list"
  Failed :: bool
  ErrorAccumulator :: string

text \<open>
  The call operator. Once the assertion has failed the program has stopped, and the calls that
  would follow change nothing.
\<close>

definition CheckRequiredOptions_call ::
  "Option_t \<Rightarrow> nat \<Rightarrow> exit + CheckRequiredOptions \<Rightarrow> exit + CheckRequiredOptions" where
  "CheckRequiredOptions_call a i state =
     (case state of
        Inl stopped \<Rightarrow> Inl stopped
      | Inr c \<Rightarrow>
          let all_ok = (FoundOptions c ! i \<or> \<not> Required a) in
          if \<not> all_ok then
            (let acc = ErrorAccumulator c @ ''Missing required option '' @ [dquote] in
             if LongOpt a = [] then
               (if ShortOpt a \<noteq> NUL
                then Inr (c\<lparr>ErrorAccumulator := acc @ ''-'' @ [ShortOpt a] @ [dquote, newline],
                           Failed := True\<rparr>)
                else Inl Assertion_failed)
             else
               Inr (c\<lparr>ErrorAccumulator := acc @ ''--'' @ LongOpt a @ [dquote, newline],
                      Failed := True\<rparr>))
          else Inr c)"

subsection \<open>parse_arguments\<close>

text \<open>
  The state of the loop: \<open>cursor\<close> is the variable \<^verbatim>\<open>i\<close>; \<open>variables\<close> are the bound
  variables of the caller; \<open>positional_arguments\<close> is \<open>None\<close> for the null pointer.
\<close>

record 'f scan_state =
  cursor :: nat
  end_of_options_reached :: bool
  found_options :: "bool list"
  variables :: "'f store"
  positional_arguments :: "string list option"

text \<open>The string \<^verbatim>\<open>opt\<close> of an argument: empty unless the argument is an option.\<close>

definition option_token :: "bool \<Rightarrow> string \<Rightarrow> string" where
  "option_token end_of_options arg =
     (if \<not> end_of_options then
        (let opt = (if length arg = 2 \<and> arg ! 0 = CHR ''-'' \<and> arg ! 1 \<noteq> CHR ''-''
                    then drop 1 arg else [])
         in if length arg \<ge> 3 \<and> arg ! 0 = CHR ''-'' \<and> arg ! 1 = CHR ''-''
            then drop 2 arg else opt)
      else [])"

text \<open>
  One run of the loop body, entered with \<open>cursor st < length argv\<close>: \<open>Inl\<close> is a
  \<^verbatim>\<open>return\<close> with the state it leaves behind, \<open>Inr\<close> the state for the next test of
  the loop condition. The \<^verbatim>\<open>continue\<close> of the first branch goes back to the condition
  with \<^verbatim>\<open>i\<close> as it was.
\<close>

definition loop_body ::
  "'f float_ops \<Rightarrow> Option_t list \<Rightarrow> string list \<Rightarrow> 'f scan_state
     \<Rightarrow> (exit \<times> 'f scan_state) + 'f scan_state" where
  "loop_body fl option_specifiers argv st =
     (let arg = argv ! cursor st in
      if arg = ''--'' then Inr (st\<lparr>end_of_options_reached := True\<rparr>)
      else
        let opt = option_token (end_of_options_reached st) arg in
        if opt = [] then
          (case positional_arguments st of
             Some collected \<Rightarrow>
               Inr (st\<lparr>positional_arguments := Some (collected @ [arg]),
                       cursor := cursor st + 1\<rparr>)
           | None \<Rightarrow> Inl (Returned ''Bare option found!'', st))
        else
          let match = find_match option_specifiers opt in
          if \<not> Matched match then Inl (Returned (''Unrecognized option found: '' @ opt), st)
          else if found_options st ! Index match
          then Inl (Returned (''Duplicate option found: '' @ opt), st)
          else
            let st = st\<lparr>found_options := (found_options st)[Index match := True]\<rparr> in
            if ReadsValue match then
              (let st = st\<lparr>cursor := cursor st + 1\<rparr> in
               if cursor st \<ge> length argv
               then Inl (Returned (''No value for option '' @ opt), st)
               else
                 let value = argv ! cursor st in
                 case FillValue match of
                   None \<Rightarrow> Inl (Bad_function_call, st)
                 | Some bound \<Rightarrow>
                     (case ReadValue fl bound value (variables st) of
                        (ok, vars) \<Rightarrow>
                          if \<not> ok
                          then Inl (Returned (''Unable to parse value '' @ [dquote] @ value
                                              @ [dquote] @ '' for option '' @ opt),
                                    st\<lparr>variables := vars\<rparr>)
                          else Inr (st\<lparr>variables := vars, cursor := cursor st + 1\<rparr>)))
            else Inr (st\<lparr>cursor := cursor st + 1\<rparr>))"

partial_function (option) scan_arguments ::
  "'f float_ops \<Rightarrow> Option_t list \<Rightarrow> string list \<Rightarrow> 'f scan_state
     \<Rightarrow> ((exit \<times> 'f scan_state) + 'f scan_state) option" where
  "scan_arguments fl option_specifiers argv st =
     (if cursor st < length argv then
        (case loop_body fl option_specifiers argv st of
           Inl returned \<Rightarrow> Some (Inl returned)
         | Inr st' \<Rightarrow> scan_arguments fl option_specifiers argv st')
      else Some (Inr st))"

declare scan_arguments.simps [code]

definition initial_state ::
  "Option_t list \<Rightarrow> string list option \<Rightarrow> 'f store \<Rightarrow> 'f scan_state" where
  "initial_state option_specifiers positional vars =
     \<lparr>cursor = 1, end_of_options_reached = False,
      found_options = replicate (length option_specifiers) False,
      variables = vars, positional_arguments = positional\<rparr>"

text \<open>The check that follows the loop.\<close>

definition check_required_options :: "Option_t list \<Rightarrow> bool list \<Rightarrow> exit" where
  "check_required_options option_specifiers found =
     (case traverse_tuple CheckRequiredOptions_call 0 option_specifiers
             (Inr \<lparr>FoundOptions = found, Failed = False, ErrorAccumulator = []\<rparr>) of
        Inl stopped \<Rightarrow> stopped
      | Inr check \<Rightarrow> if Failed check then Returned (ErrorAccumulator check) else Returned [])"

text \<open>
  \<^verbatim>\<open>parse_arguments(argc, argv, option_specifiers, positional_arguments)\<close>, with
  \<open>argc = length argv\<close>. The result is \<open>None\<close> when the call does not return; otherwise
  how the call ended, the bound variables and the positional arguments as it left them.
\<close>

definition parse_arguments ::
  "'f float_ops \<Rightarrow> string list \<Rightarrow> Option_t list \<Rightarrow> string list option \<Rightarrow> 'f store
     \<Rightarrow> (exit \<times> 'f store \<times> string list option) option" where
  "parse_arguments fl argv option_specifiers positional vars =
     (case scan_arguments fl option_specifiers argv
             (initial_state option_specifiers positional vars) of
        None \<Rightarrow> None
      | Some (Inl (returned, st)) \<Rightarrow>
          Some (returned, variables st, positional_arguments st)
      | Some (Inr st) \<Rightarrow>
          Some (check_required_options option_specifiers (found_options st),
                variables st, positional_arguments st))"

subsection \<open>usage_string\<close>

fun type_string :: "value_type \<Rightarrow> string" where
  "type_string T_int = ''int''"
| "type_string T_long = ''int''"
| "type_string T_long_long = ''int''"
| "type_string T_unsigned = ''uint''"
| "type_string T_unsigned_long = ''uint''"
| "type_string T_unsigned_long_long = ''uint''"
| "type_string T_float = ''float''"
| "type_string T_double = ''double''"
| "type_string T_long_double = ''double''"
| "type_string T_string = ''string''"

text \<open>The call operators of \<^verbatim>\<open>MaxOptionLength\<close>; the state is \<open>MaxLength\<close>.\<close>

definition MaxOptionLength_call :: "Option_t \<Rightarrow> nat \<Rightarrow> nat \<Rightarrow> nat" where
  "MaxOptionLength_call a i MaxLength =
     (case Type a of
        Reads T \<Rightarrow> max MaxLength (length (LongOpt a) + 1 + length (type_string T))
      | Flag \<Rightarrow> max MaxLength (length (LongOpt a)))"

text \<open>\<^verbatim>\<open>operator<<\<close> on an integer and on the value of a bound variable.\<close>

function put_unsigned :: "nat \<Rightarrow> string" where
  "put_unsigned n =
     (if n < 10 then [char_of (48 + n)] else put_unsigned (n div 10) @ [char_of (48 + n mod 10)])"
  by pat_completeness auto
termination
  by (relation "measure id") auto

declare put_unsigned.simps [simp del]

definition put_integer :: "int \<Rightarrow> string" where
  "put_integer v = (if v < 0 then ''-'' @ put_unsigned (nat (- v)) else put_unsigned (nat v))"

fun put_value :: "'f float_ops \<Rightarrow> 'f val \<Rightarrow> string" where
  "put_value fl (Int_val v) = put_integer v"
| "put_value fl (String_val s) = s"
| "put_value fl (Float_val x) = put_float fl x"
| "put_value fl (Bool_val b) = (if b then ''1'' else ''0'')"

record UsagePrinter =
  UsageAccumulator :: string
  LengthPad :: nat

text \<open>
  What a call of \<^verbatim>\<open>UsagePrinter\<close> writes before the help string and after it. The
  length of the padding is a difference of sizes; \<open>usage_string\<close> passes a \<open>LengthPad\<close> that
  is at least the \<open>MaxLength\<close> of every descriptor (lemma \<open>option_width_le_max\<close>), so the
  difference is never negative there.
\<close>

definition usage_columns :: "nat \<Rightarrow> Option_t \<Rightarrow> string" where
  "usage_columns pad a =
     (let has_short_opt = (ShortOpt a \<noteq> NUL);
          has_long_opt = (LongOpt a \<noteq> []);
          m = MaxOptionLength_call a 0 0
      in ''  ''
         @ (if has_short_opt then ''-'' @ [ShortOpt a] else ''  '')
         @ (if has_long_opt then '' --'' @ LongOpt a else [])
         @ (case Type a of Reads T \<Rightarrow> '' '' @ type_string T | Flag \<Rightarrow> [])
         @ replicate (pad + (if has_long_opt then 2 else 5) - m) (CHR '' ''))"

definition usage_default :: "'f float_ops \<Rightarrow> 'f store \<Rightarrow> Option_t \<Rightarrow> string" where
  "usage_default fl vars a =
     (case Type a of
        Flag \<Rightarrow> []
      | Reads T \<Rightarrow>
          if \<not> Required a then
            (if T = T_string
             then '' (default: '' @ [dquote] @ put_value fl (vars (Value a)) @ [dquote] @ '')''
             else '' (default: '' @ put_value fl (vars (Value a)) @ '')'')
          else [])"

definition UsagePrinter_call ::
  "'f float_ops \<Rightarrow> 'f store \<Rightarrow> Option_t \<Rightarrow> nat \<Rightarrow> UsagePrinter \<Rightarrow> UsagePrinter" where
  "UsagePrinter_call fl vars a i p =
     p\<lparr>UsageAccumulator :=
         UsageAccumulator p @ usage_columns (LengthPad p) a @ HelpString a
         @ usage_default fl vars a @ [newline]\<rparr>"

definition usage_header :: "string \<Rightarrow> bool \<Rightarrow> string \<Rightarrow> string" where
  "usage_header program_name positional_arguments_enabled positional_argument_type =
     ''Usage: '' @ program_name @ '' [option]...''
     @ (if positional_arguments_enabled
        then '' [--] ['' @ positional_argument_type @ '']...'' else [])
     @ [newline]"

definition usage_string ::
  "'f float_ops \<Rightarrow> 'f store \<Rightarrow> string \<Rightarrow> Option_t list \<Rightarrow> bool \<Rightarrow> string \<Rightarrow> string" where
  "usage_string fl vars program_name option_specifiers positional_arguments_enabled
       positional_argument_type =
     (let usage = usage_header program_name positional_arguments_enabled positional_argument_type;
          m = traverse_tuple MaxOptionLength_call 0 option_specifiers 0
      in UsageAccumulator
           (traverse_tuple (UsagePrinter_call fl vars) 0 option_specifiers
              \<lparr>UsageAccumulator = usage, LengthPad = m\<rparr>))"

subsection \<open>The example program\<close>

text \<open>The addresses of the variables of \<^verbatim>\<open>main\<close>.\<close>

definition mr_flag :: nat where
  "mr_flag = 0"

definition display_usage :: nat where
  "display_usage = 1"

definition required_int :: nat where
  "required_int = 2"

definition optional_string :: nat where
  "optional_string = 3"

text \<open>
  The tuple \<^verbatim>\<open>opts\<close> of \<^verbatim>\<open>main\<close> and the variables once it is built, from the
  variables \<open>vars\<close> as \<^verbatim>\<open>main\<close> finds them (all but \<^verbatim>\<open>optional_string\<close> are
  uninitialised).
\<close>

definition example_opts :: "'f store \<Rightarrow> Option_t list \<times> 'f store" where
  "example_opts vars =
     (let vars = vars(optional_string := String_val ''default'');
          (usage, vars) =
             Option_bool display_usage ''Display usage string and exit'' ''usage'' (CHR ''u'') vars;
          (flag, vars) = Option_bool mr_flag ''Set mr_flag to true'' ''flag'' (CHR ''f'') vars;
          number = Option_value T_int required_int ''An required integer parameter'' ''number''
                     (CHR ''n'') True;
          opt = Option_value T_string optional_string ''An optional string'' ''optional-string''
                  (CHR ''s'') False
      in ([usage, flag, number, opt], vars))"

text \<open>The call of \<^verbatim>\<open>parse_arguments\<close> in \<^verbatim>\<open>main\<close>.\<close>

definition example_parse ::
  "'f float_ops \<Rightarrow> string list \<Rightarrow> 'f store
     \<Rightarrow> (exit \<times> 'f store \<times> string list option) option" where
  "example_parse fl argv vars =
     (case example_opts vars of
        (opts, vars) \<Rightarrow> parse_arguments fl argv opts (Some []) vars)"

text \<open>
  Floating-point operations for programs that bind no floating variable: none of them is
  called.
\<close>

definition no_float_ops :: "unit float_ops" where
  "no_float_ops =
     \<lparr>strtof = (\<lambda>s. ((), 0)), strtod = (\<lambda>s. ((), 0)), strtold = (\<lambda>s. ((), 0)),
      put_float = (\<lambda>x. [])\<rparr>"

section \<open>Notions used to state the properties\<close>

text \<open>
  The definitions of this section are not part of the program. They name what the properties
  speak about: the two tests of \<^verbatim>\<open>find_match\<close>, the runs of the loop, the descriptor the
  scanner matches the current token to, and the lines the required-option check is meant to
  write.
\<close>

text \<open>
  The integral types, and the parse of the C library that \<^verbatim>\<open>from_string\<close> calls for
  each of them (the last equation covers the other types, for which the function is not
  used).
\<close>

definition integral :: "value_type \<Rightarrow> bool" where
  "integral T =
     (T = T_int \<or> T = T_long \<or> T = T_long_long
      \<or> T = T_unsigned \<or> T = T_unsigned_long \<or> T = T_unsigned_long_long)"

fun integral_parse :: "value_type \<Rightarrow> string \<Rightarrow> int \<times> nat" where
  "integral_parse T_int = strtol"
| "integral_parse T_long = strtol"
| "integral_parse T_long_long = strtoll"
| "integral_parse T_unsigned = strtoul"
| "integral_parse T_unsigned_long = strtoul"
| "integral_parse T_unsigned_long_long = strtoull"
| "integral_parse T = strtol"

text \<open>
  The two equality tests of \<^verbatim>\<open>find_match\<close>:
  \<^verbatim>\<open>opt.size() == 1 && a.ShortOpt == opt[0]\<close> and \<^verbatim>\<open>a.LongOpt == opt\<close>.
\<close>

definition short_test :: "Option_t \<Rightarrow> string \<Rightarrow> bool" where
  "short_test a opt = (length opt = 1 \<and> ShortOpt a = opt ! 0)"

definition long_test :: "Option_t \<Rightarrow> string \<Rightarrow> bool" where
  "long_test a opt = (LongOpt a = opt)"

text \<open>
  The state after \<open>k\<close> further runs of the loop body, when the loop runs that many times
  without returning.
\<close>

fun iterate_loop ::
  "'f float_ops \<Rightarrow> Option_t list \<Rightarrow> string list \<Rightarrow> nat \<Rightarrow> 'f scan_state \<Rightarrow> 'f scan_state option" where
  "iterate_loop fl option_specifiers argv 0 st = Some st"
| "iterate_loop fl option_specifiers argv (Suc k) st =
     (if cursor st < length argv then
        (case loop_body fl option_specifiers argv st of
           Inl returned \<Rightarrow> None
         | Inr st' \<Rightarrow> iterate_loop fl option_specifiers argv k st')
      else None)"

text \<open>
  The index of the descriptor \<^verbatim>\<open>find_match\<close> returns for the token at the cursor, when
  that token is an option and has a match.
\<close>

definition matched_at :: "Option_t list \<Rightarrow> string list \<Rightarrow> 'f scan_state \<Rightarrow> nat option" where
  "matched_at option_specifiers argv st =
     (if cursor st < length argv \<and> argv ! cursor st \<noteq> ''--'' then
        (let opt = option_token (end_of_options_reached st) (argv ! cursor st);
             match = find_match option_specifiers opt
         in if opt \<noteq> [] \<and> Matched match then Some (Index match) else None)
      else None)"

text \<open>
  Whether run \<open>k\<close> of the loop, counted from state \<open>st\<close>, finds the cursor on a token
  matched to descriptor \<open>n\<close>; and whether descriptor \<open>n\<close> is supplied: some run of the
  loop of \<open>parse_arguments\<close> matches a token to it. A scan that ends has fewer runs than
  arguments (lemma \<open>iterate_loop_cursor\<close>), so the runs below \<open>length argv\<close> are all there
  are.
\<close>

definition matched_in_run ::
  "'f float_ops \<Rightarrow> Option_t list \<Rightarrow> string list \<Rightarrow> 'f scan_state \<Rightarrow> nat \<Rightarrow> nat \<Rightarrow> bool" where
  "matched_in_run fl option_specifiers argv st k n =
     (case iterate_loop fl option_specifiers argv k st of
        Some st' \<Rightarrow> matched_at option_specifiers argv st' = Some n
      | None \<Rightarrow> False)"

definition supplied ::
  "'f float_ops \<Rightarrow> string list \<Rightarrow> Option_t list \<Rightarrow> string list option \<Rightarrow> 'f store \<Rightarrow> nat \<Rightarrow> bool" where
  "supplied fl argv option_specifiers positional vars n =
     list_ex (\<lambda>k. matched_in_run fl option_specifiers argv
                     (initial_state option_specifiers positional vars) k n)
       [0..<length argv]"

text \<open>
  The descriptors with \<open>Required\<close> set and the seen-flag clear, in declaration order, and the
  line that names one of them: by its long spelling if it has one, else by its short spelling.
\<close>

definition missing_required :: "Option_t list \<Rightarrow> bool list \<Rightarrow> Option_t list" where
  "missing_required option_specifiers found =
     map fst (filter (\<lambda>(a, seen). Required a \<and> \<not> seen) (zip option_specifiers found))"

definition missing_line :: "Option_t \<Rightarrow> string" where
  "missing_line a =
     ''Missing required option '' @ [dquote]
     @ (if LongOpt a = [] then ''-'' @ [ShortOpt a] else ''--'' @ LongOpt a)
     @ [dquote, newline]"

text \<open>
  The assertion of \<^verbatim>\<open>CheckRequiredOptions\<close>: a required descriptor without a long
  spelling has a short one.
\<close>

definition required_have_spelling :: "Option_t list \<Rightarrow> bool" where
  "required_have_spelling option_specifiers =
     list_all (\<lambda>a. Required a \<and> LongOpt a = [] \<longrightarrow> ShortOpt a \<noteq> NUL) option_specifiers"

text \<open>
  The width \<^verbatim>\<open>MaxOptionLength\<close> measures for one descriptor (the long spelling and, for
  a descriptor that reads a value, a space and the type tag), and its maximum over an option
  set.
\<close>

definition option_width :: "Option_t \<Rightarrow> nat" where
  "option_width a =
     length (LongOpt a) + (case Type a of Reads T \<Rightarrow> 1 + length (type_string T) | Flag \<Rightarrow> 0)"

definition max_option_width :: "Option_t list \<Rightarrow> nat" where
  "max_option_width option_specifiers = Max (set (0 # map option_width option_specifiers))"

text \<open>Concrete inputs for the examples.\<close>

definition uninitialised :: "unit store" where
  "uninitialised = (\<lambda>address. Int_val 0)"

definition one_letter_option :: Option_t where
  "one_letter_option = Option_value T_int 0 ''help'' ''x'' (CHR ''c'') False"

definition dash_option :: Option_t where
  "dash_option = Option_value T_string 0 ''help'' ''-'' NUL False"

definition two_required :: "Option_t list" where
  "two_required =
     [Option_value T_int 0 ''first'' ''alpha'' (CHR ''a'') True,
      Option_value T_string 1 ''second'' [] (CHR ''b'') True]"

definition shadowed :: "Option_t list" where
  "shadowed =
     [Option_value T_int 0 ''first'' ''c'' NUL False,
      Option_value T_int 1 ''second'' ''count'' (CHR ''c'') False]"

section \<open>Properties\<close>

subsection \<open>The matcher\<close>

lemma find_match_from_end:
  "length opts \<le> N \<Longrightarrow> \<not> Matched (find_match_from N opts opt)"
  by (simp add: find_match_from.simps [of N])

lemma find_match_from_hit:
  "N < length opts \<Longrightarrow> short_test (opts ! N) opt \<or> long_test (opts ! N) opt
     \<Longrightarrow> find_match_from N opts opt = create_option_match (opts ! N) N"
  by (simp add: find_match_from.simps [of N] Let_def short_test_def long_test_def)

lemma find_match_from_miss:
  "N < length opts \<Longrightarrow> \<not> (short_test (opts ! N) opt \<or> long_test (opts ! N) opt)
     \<Longrightarrow> find_match_from N opts opt = find_match_from (Suc N) opts opt"
  by (auto simp add: find_match_from.simps [of N] Let_def short_test_def long_test_def)

lemma create_option_match_sel [simp]:
  "Matched (create_option_match a N)" "Index (create_option_match a N) = N"
  "ReadsValue (create_option_match a N) = Option_ReadsValue a"
  by (simp_all add: create_option_match_def Option_ReadsValue_def split: option_type.splits)

text \<open>
  A match is at a descriptor that passes one of the two tests, and no descriptor before it
  passes one: \<^verbatim>\<open>find_match\<close> returns the first match in declaration order.
\<close>

lemma find_match_from_Matched:
  assumes "Matched (find_match_from N opts opt)"
  shows "N \<le> Index (find_match_from N opts opt)
         \<and> Index (find_match_from N opts opt) < length opts
         \<and> (short_test (opts ! Index (find_match_from N opts opt)) opt
              \<or> long_test (opts ! Index (find_match_from N opts opt)) opt)
         \<and> find_match_from N opts opt
             = create_option_match (opts ! Index (find_match_from N opts opt))
                 (Index (find_match_from N opts opt))"
  using assms
proof (induction "length opts - N" arbitrary: N)
  case 0
  then show ?case
    using find_match_from_end [of opts N opt] by simp
next
  case (Suc d)
  then have inside: "N < length opts"
    by simp
  show ?case
  proof (cases "short_test (opts ! N) opt \<or> long_test (opts ! N) opt")
    case True
    with inside show ?thesis
      by (simp add: find_match_from_hit)
  next
    case False
    with inside have eq: "find_match_from N opts opt = find_match_from (Suc N) opts opt"
      by (rule find_match_from_miss)
    from Suc.hyps(2) have "d = length opts - Suc N"
      by simp
    from Suc.hyps(1) [OF this] Suc.prems eq show ?thesis
      by auto
  qed
qed

lemma find_match_from_first:
  assumes "N \<le> n" and "n < length opts"
    and "short_test (opts ! n) opt \<or> long_test (opts ! n) opt"
  shows "Matched (find_match_from N opts opt) \<and> Index (find_match_from N opts opt) \<le> n"
  using assms(1)
proof (induction "n - N" arbitrary: N)
  case 0
  with assms have "find_match_from N opts opt = create_option_match (opts ! N) N"
    by (simp add: find_match_from_hit)
  with 0 show ?case
    by simp
next
  case (Suc d)
  then have inside: "N < length opts" and below: "Suc N \<le> n"
    using assms(2) by simp_all
  show ?case
  proof (cases "short_test (opts ! N) opt \<or> long_test (opts ! N) opt")
    case True
    with inside Suc.prems show ?thesis
      by (simp add: find_match_from_hit)
  next
    case False
    with inside have eq: "find_match_from N opts opt = find_match_from (Suc N) opts opt"
      by (rule find_match_from_miss)
    from Suc.hyps(2) have "d = n - Suc N"
      by simp
    from Suc.hyps(1) [OF this below] eq show ?thesis
      by simp
  qed
qed

lemma find_match_from_skips:
  assumes "Matched (find_match_from N opts opt)" and "N \<le> k"
    and "k < Index (find_match_from N opts opt)"
  shows "\<not> (short_test (opts ! k) opt \<or> long_test (opts ! k) opt)"
proof
  assume "short_test (opts ! k) opt \<or> long_test (opts ! k) opt"
  moreover from assms(3) find_match_from_Matched [OF assms(1)] have "k < length opts"
    by simp
  ultimately have "Index (find_match_from N opts opt) \<le> k"
    using find_match_from_first [OF assms(2)] by blast
  with assms(3) show False
    by simp
qed

lemma find_match_unshadowed:
  assumes "n < length opts"
    and "short_test (opts ! n) opt \<or> long_test (opts ! n) opt"
    and "\<forall>k<n. \<not> (short_test (opts ! k) opt \<or> long_test (opts ! k) opt)"
  shows "find_match opts opt = create_option_match (opts ! n) n"
proof -
  from find_match_from_first [OF _ assms(1,2), of 0]
  have m: "Matched (find_match_from 0 opts opt)" and le: "Index (find_match_from 0 opts opt) \<le> n"
    by simp_all
  from find_match_from_Matched [OF m] assms(3) le
  have "Index (find_match_from 0 opts opt) = n"
    by (metis le_neq_implies_less)
  with find_match_from_Matched [OF m] show ?thesis
    by (simp add: find_match_def)
qed

lemma matched_atD:
  assumes "matched_at opts argv st = Some n"
  shows "cursor st < length argv" and "argv ! cursor st \<noteq> ''--''"
    and "option_token (end_of_options_reached st) (argv ! cursor st) \<noteq> []"
    and "Matched (find_match opts (option_token (end_of_options_reached st) (argv ! cursor st)))"
    and "Index (find_match opts (option_token (end_of_options_reached st) (argv ! cursor st))) = n"
    and "n < length opts"
    and "find_match opts (option_token (end_of_options_reached st) (argv ! cursor st))
           = create_option_match (opts ! n) n"
proof -
  let ?opt = "option_token (end_of_options_reached st) (argv ! cursor st)"
  from assms show c: "cursor st < length argv" and "argv ! cursor st \<noteq> ''--''"
    by (auto simp: matched_at_def split: if_splits)
  from assms show "?opt \<noteq> []" and m: "Matched (find_match opts ?opt)"
    and i: "Index (find_match opts ?opt) = n"
    by (auto simp: matched_at_def Let_def split: if_splits)
  from m have "Matched (find_match_from 0 opts ?opt)"
    by (simp add: find_match_def)
  from find_match_from_Matched [OF this] i
  show "n < length opts" and "find_match opts ?opt = create_option_match (opts ! n) n"
    by (simp_all add: find_match_def)
qed

subsection \<open>The loop\<close>

lemma loop_body_duplicate:
  assumes "matched_at opts argv st = Some n" and "found_options st ! n"
  shows "loop_body fl opts argv st
           = Inl (Returned (''Duplicate option found: ''
                    @ option_token (end_of_options_reached st) (argv ! cursor st)), st)"
  using matched_atD [OF assms(1)] assms(2)
  by (simp add: loop_body_def Let_def)

lemma loop_body_found_length:
  assumes "loop_body fl opts argv st = Inr st'"
  shows "length (found_options st') = length (found_options st)"
  using assms
  by (auto simp: loop_body_def Let_def split: if_splits option.splits prod.splits)

lemma loop_body_found_mono:
  assumes "loop_body fl opts argv st = Inr st'" and "found_options st ! n"
  shows "found_options st' ! n"
proof -
  have keep: "(found_options st)[k := True] ! n" for k
    using assms(2) by (cases "k < length (found_options st)") (simp_all add: nth_list_update list_update_beyond)
  from assms(1) show ?thesis
    using assms(2) keep
    by (auto simp: loop_body_def Let_def split: if_splits option.splits prod.splits)
qed

lemma loop_body_sets_found:
  assumes "matched_at opts argv st = Some n" and "loop_body fl opts argv st = Inr st'"
    and "length (found_options st) = length opts"
  shows "found_options st' ! n"
  using matched_atD [OF assms(1)] assms(2,3)
  by (auto simp: loop_body_def Let_def split: if_splits option.splits prod.splits)

lemma loop_body_advances:
  assumes "loop_body fl opts argv st = Inr st'" and "argv ! cursor st \<noteq> ''--''"
  shows "cursor st < cursor st'"
  using assms
  by (auto simp: loop_body_def Let_def split: if_splits option.splits prod.splits)

lemma iterate_loop_found_length:
  "iterate_loop fl opts argv k st = Some st'
     \<Longrightarrow> length (found_options st') = length (found_options st)"
  by (induction k arbitrary: st)
     (auto split: if_splits sum.splits dest: loop_body_found_length)

lemma iterate_loop_found_mono:
  "iterate_loop fl opts argv k st = Some st' \<Longrightarrow> found_options st ! n
     \<Longrightarrow> found_options st' ! n"
  by (induction k arbitrary: st)
     (auto split: if_splits sum.splits dest: loop_body_found_mono)

lemma scan_arguments_iterate_loop:
  "iterate_loop fl opts argv k st = Some st'
     \<Longrightarrow> scan_arguments fl opts argv st = scan_arguments fl opts argv st'"
proof (induction k arbitrary: st)
  case 0
  then show ?case by simp
next
  case (Suc k)
  from Suc.prems obtain st1 where c: "cursor st < length argv"
    and b: "loop_body fl opts argv st = Inr st1"
    and r: "iterate_loop fl opts argv k st1 = Some st'"
    by (auto split: if_splits sum.splits)
  from c b have "scan_arguments fl opts argv st = scan_arguments fl opts argv st1"
    by (subst scan_arguments.simps) simp
  with Suc.IH [OF r] show ?case
    by simp
qed

lemma scan_arguments_return:
  assumes "cursor st < length argv" and "loop_body fl opts argv st = Inl r"
  shows "scan_arguments fl opts argv st = Some (Inl r)"
  using assms by (subst scan_arguments.simps) simp

lemma scan_arguments_found_length:
  assumes "scan_arguments fl opts argv st = Some r"
  shows "length (found_options (case r of Inl (e, st') \<Rightarrow> st' | Inr st' \<Rightarrow> st'))
           = length (found_options st)"
  using assms
proof (induction rule: scan_arguments.raw_induct[rotated 1, consumes 1])
  case (1 scan fl opts argv st r)
  show ?case
  proof (cases "cursor st < length argv")
    case False
    with 1(2) show ?thesis
      by auto
  next
    case True
    show ?thesis
    proof (cases "loop_body fl opts argv st")
      case (Inl ret)
      with True 1(2) have "r = Inl ret"
        by simp
      with Inl show ?thesis
        by (auto simp: loop_body_def Let_def split: if_splits option.splits prod.splits)
    next
      case (Inr st1)
      with True 1(2) have "scan fl opts argv st1 = Some r"
        by simp
      from 1(1) [OF this] loop_body_found_length [OF Inr] show ?thesis
        by simp
    qed
  qed
qed

subsection \<open>The example program\<close>

lemma example_opts_eq:
  "example_opts vars =
     ([\<lparr>Type = Flag, Value = 1, HelpString = ''Display usage string and exit'',
         LongOpt = ''usage'', ShortOpt = CHR ''u'', Required = False\<rparr>,
       \<lparr>Type = Flag, Value = 0, HelpString = ''Set mr_flag to true'',
         LongOpt = ''flag'', ShortOpt = CHR ''f'', Required = False\<rparr>,
       \<lparr>Type = Reads T_int, Value = 2, HelpString = ''An required integer parameter'',
         LongOpt = ''number'', ShortOpt = CHR ''n'', Required = True\<rparr>,
       \<lparr>Type = Reads T_string, Value = 3, HelpString = ''An optional string'',
         LongOpt = ''optional-string'', ShortOpt = CHR ''s'', Required = False\<rparr>],
      vars(3 := String_val ''default'', 1 := Bool_val False, 0 := Bool_val False))"
  by (simp add: example_opts_def Option_bool_def Option_value_def mr_flag_def display_usage_def
        required_int_def optional_string_def)

lemma example_specifiers:
  "fst (example_opts vars) =
     [\<lparr>Type = Flag, Value = 1, HelpString = ''Display usage string and exit'',
        LongOpt = ''usage'', ShortOpt = CHR ''u'', Required = False\<rparr>,
      \<lparr>Type = Flag, Value = 0, HelpString = ''Set mr_flag to true'',
        LongOpt = ''flag'', ShortOpt = CHR ''f'', Required = False\<rparr>,
      \<lparr>Type = Reads T_int, Value = 2, HelpString = ''An required integer parameter'',
        LongOpt = ''number'', ShortOpt = CHR ''n'', Required = True\<rparr>,
      \<lparr>Type = Reads T_string, Value = 3, HelpString = ''An optional string'',
        LongOpt = ''optional-string'', ShortOpt = CHR ''s'', Required = False\<rparr>]"
  by (simp add: example_opts_eq)

lemma example_variables:
  "snd (example_opts vars)
     = vars(3 := String_val ''default'', 1 := Bool_val False, 0 := Bool_val False)"
  by (simp add: example_opts_eq)

lemma example_parse_eq:
  "example_parse fl argv vars
     = parse_arguments fl argv (fst (example_opts vars)) (Some []) (snd (example_opts vars))"
  by (simp add: example_parse_def split: prod.splits)

lemmas run_defs = parse_arguments_def initial_state_def scan_arguments.simps loop_body_def
  option_token_def find_match_def find_match_from.simps create_option_match_def ReadValue_def
  from_string_INTEGRAL_def strtol_def strto_signed_def subject_sequence_def
  has_sign_def has_hex_prefix_def is_digit_in_def digit_value_def digits_value_def isspace_def
  check_required_options_def traverse_tuple.simps CheckRequiredOptions_call_def Let_def

lemmas match_defs = matched_at_def option_token_def find_match_def find_match_from.simps
  create_option_match_def Let_def

text \<open>
  C4. With the descriptors of the example program and the arguments
  \<^verbatim>\<open>prog -n 5 file.txt\<close>, whatever the variables of \<^verbatim>\<open>main\<close> hold before:
  \<open>parse_arguments\<close> returns the empty string, \<^verbatim>\<open>required_int\<close> is 5,
  \<^verbatim>\<open>optional_string\<close> is still \<^verbatim>\<open>default\<close>, \<^verbatim>\<open>mr_flag\<close> is false and the
  positional arguments are \<^verbatim>\<open>file.txt\<close> alone.
\<close>

theorem example_number_5:
  "\<exists>vars'. example_parse fl [''prog'', ''-n'', ''5'', ''file.txt''] vars
              = Some (Returned [], vars', Some [''file.txt''])
     \<and> vars' required_int = Int_val 5
     \<and> vars' optional_string = String_val ''default''
     \<and> vars' mr_flag = Bool_val False"
  by (simp add: example_parse_def example_opts_eq run_defs mr_flag_def required_int_def
        optional_string_def)

subsection \<open>The terminator\<close>

lemma scan_arguments_at_terminator:
  assumes "cursor st < length argv" and "argv ! cursor st = ''--''"
  shows "scan_arguments fl option_specifiers argv st = None"
proof -
  have "\<not> (cursor st < length argv \<and> argv ! cursor st = ''--'')"
    if "scan_arguments fl option_specifiers argv st = Some y" for y
    using that
  proof (induction rule: scan_arguments.raw_induct[rotated 1, consumes 1])
    case (1 scan fl option_specifiers argv st y)
    show ?case
    proof
      assume at: "cursor st < length argv \<and> argv ! cursor st = ''--''"
      then have "loop_body fl option_specifiers argv st
                   = Inr (st\<lparr>end_of_options_reached := True\<rparr>)"
        by (simp add: loop_body_def)
      with at 1(2) have "scan fl option_specifiers argv (st\<lparr>end_of_options_reached := True\<rparr>)
                           = Some y"
        by simp
      from 1(1)[OF this] at show False
        by simp
    qed
  qed
  with assms show ?thesis
    by (cases "scan_arguments fl option_specifiers argv st") auto
qed

text \<open>
  C1. The claim: \<open>parse_arguments\<close> terminates for every argument list, and the token
  \<^verbatim>\<open>--\<close> is consumed once. The code: the branch for \<^verbatim>\<open>--\<close> sets the flag and
  continues without advancing \<^verbatim>\<open>i\<close>, so the loop reads the same token again for ever.
  Whatever the option set, the collector and the variables are, a call whose first argument
  after the program name is \<^verbatim>\<open>--\<close> does not return.
\<close>

theorem parse_arguments_terminator_first_never_returns:
  "parse_arguments fl (prog # ''--'' # rest) option_specifiers positional vars = None"
proof -
  have "scan_arguments fl option_specifiers (prog # ''--'' # rest)
          (initial_state option_specifiers positional vars) = None"
    by (rule scan_arguments_at_terminator) (simp_all add: initial_state_def)
  then show ?thesis
    by (simp add: parse_arguments_def)
qed

text \<open>
  C3. The claim: every token after \<^verbatim>\<open>--\<close> is appended to the positional arguments, even
  one that looks like an option. The code: with the descriptors of the example program, a
  collector and the arguments \<^verbatim>\<open>prog -- -f\<close>, the call does not return, so \<^verbatim>\<open>-f\<close>
  is never collected. The cause is the one of C1.
\<close>

theorem tokens_after_terminator_never_collected: "example_parse fl [''prog'', ''--'', ''-f''] vars = None"
proof -
  have "scan_arguments fl opts [''prog'', ''--'', ''-f''] (initial_state opts (Some []) vars')
          = None" for opts and vars' :: "'a store"
    by (rule scan_arguments_at_terminator) (simp_all add: initial_state_def)
  then have "parse_arguments fl [''prog'', ''--'', ''-f''] opts (Some []) vars' = None"
    for opts and vars' :: "'a store"
    by (simp add: parse_arguments_def)
  then show ?thesis
    by (simp add: example_parse_def split: prod.splits)
qed

text \<open>
  The terminator is the only obstacle: when none of the arguments after the program name is
  \<^verbatim>\<open>--\<close>, every run of the loop body that does not return advances the cursor, and the
  call returns.
\<close>

lemma scan_arguments_returns:
  assumes "''--'' \<notin> set (drop 1 argv)" and "1 \<le> cursor st"
  shows "\<exists>r. scan_arguments fl opts argv st = Some r"
  using assms(2)
proof (induction "length argv - cursor st" arbitrary: st rule: less_induct)
  case less
  show ?case
  proof (cases "cursor st < length argv")
    case False
    then show ?thesis
      by (subst scan_arguments.simps) simp
  next
    case True
    with less.prems have "drop 1 argv ! (cursor st - 1) = argv ! cursor st"
      and "cursor st - 1 < length (drop 1 argv)"
      by simp_all
    then have "argv ! cursor st \<in> set (drop 1 argv)"
      by (metis nth_mem)
    with assms(1) have no: "argv ! cursor st \<noteq> ''--''"
      by auto
    show ?thesis
    proof (cases "loop_body fl opts argv st")
      case (Inl r)
      with True show ?thesis
        by (subst scan_arguments.simps) simp
    next
      case (Inr st')
      from loop_body_advances [OF Inr no] True less.prems
      have "length argv - cursor st' < length argv - cursor st" and "1 \<le> cursor st'"
        by simp_all
      from less.hyps [OF this] obtain r where "scan_arguments fl opts argv st' = Some r"
        by blast
      with True Inr show ?thesis
        by (subst scan_arguments.simps) simp
    qed
  qed
qed

theorem parse_arguments_returns_without_terminator:
  assumes "''--'' \<notin> set (drop 1 argv)"
  shows "\<exists>r. parse_arguments fl argv opts positional vars = Some r"
proof -
  from scan_arguments_returns [OF assms, of "initial_state opts positional vars" fl opts]
  obtain r where "scan_arguments fl opts argv (initial_state opts positional vars) = Some r"
    by (auto simp: initial_state_def)
  then show ?thesis
    by (cases r) (auto simp: parse_arguments_def)
qed

theorem parse_arguments_returns_without_terminator_witness:
  "''--'' \<notin> set (drop 1 [''prog'', ''-n'', ''5''])
   \<and> (\<exists>r. example_parse no_float_ops [''prog'', ''-n'', ''5''] uninitialised = Some r)"
proof -
  have h: "''--'' \<notin> set (drop 1 [''prog'', ''-n'', ''5''])"
    by simp
  from h parse_arguments_returns_without_terminator [OF h] show ?thesis
    by (simp add: example_parse_eq)
qed

subsection \<open>Flags\<close>

text \<open>
  A first match of a descriptor of \<^verbatim>\<open>Option<bool>\<close> marks the descriptor as seen and
  advances the cursor; the variables stay as they are.
\<close>

lemma flag_match_sets_no_variable:
  assumes "matched_at opts argv st = Some n" and "Type (opts ! n) = Flag"
    and "\<not> found_options st ! n"
  shows "loop_body fl opts argv st
           = Inr (st\<lparr>found_options := (found_options st)[n := True], cursor := cursor st + 1\<rparr>)"
  using matched_atD [OF assms(1)] assms(2,3)
  by (simp add: loop_body_def Let_def create_option_match_def)

text \<open>
  C2. The claim: a match of a boolean descriptor sets its variable to true, so that after a
  successful parse the variable is true exactly when the flag was among the arguments. The
  code: with the descriptors of the example program and the arguments \<^verbatim>\<open>prog -f -n 5\<close>
  the parse succeeds, the flag is among the arguments, and \<^verbatim>\<open>mr_flag\<close> is false: the
  constructor of \<^verbatim>\<open>Option<bool>\<close> assigns false and nothing assigns true.
\<close>

theorem flag_stays_false_after_match:
  "\<exists>vars'. example_parse fl [''prog'', ''-f'', ''-n'', ''5''] vars = Some (Returned [], vars', Some [])
     \<and> vars' mr_flag = Bool_val False"
  by (simp add: example_parse_def example_opts_eq run_defs mr_flag_def)

subsection \<open>Duplicate options\<close>

text \<open>
  C5. When the loop reaches a token matched to descriptor \<open>n\<close> and, one or more runs
  later, reaches a second token matched to the same descriptor (by the same spelling or the
  other), \<open>parse_arguments\<close> returns the duplicate-option message with the option token of
  the second occurrence (the argument without its dashes), and the variables and positional
  arguments are those the scan had built when it reached that token.
\<close>

theorem duplicate_option_is_reported:
  assumes "iterate_loop fl opts argv k (initial_state opts positional vars) = Some st1"
    and "matched_at opts argv st1 = Some n"
    and "iterate_loop fl opts argv (Suc j) st1 = Some st2"
    and "matched_at opts argv st2 = Some n"
  shows "parse_arguments fl argv opts positional vars
           = Some (Returned (''Duplicate option found: ''
                     @ option_token (end_of_options_reached st2) (argv ! cursor st2)),
                   variables st2, positional_arguments st2)"
proof -
  let ?init = "initial_state opts positional vars"
  from assms(3) obtain st1' where b: "loop_body fl opts argv st1 = Inr st1'"
    and r: "iterate_loop fl opts argv j st1' = Some st2"
    by (auto split: if_splits sum.splits)
  have "length (found_options st1) = length opts"
    using iterate_loop_found_length [OF assms(1)] by (simp add: initial_state_def)
  with assms(2) b have "found_options st1' ! n"
    by (rule loop_body_sets_found)
  with r have "found_options st2 ! n"
    by (rule iterate_loop_found_mono)
  with assms(4) have "loop_body fl opts argv st2
      = Inl (Returned (''Duplicate option found: ''
               @ option_token (end_of_options_reached st2) (argv ! cursor st2)), st2)"
    by (rule loop_body_duplicate)
  with matched_atD(1) [OF assms(4)]
  have "scan_arguments fl opts argv st2
      = Some (Inl (Returned (''Duplicate option found: ''
               @ option_token (end_of_options_reached st2) (argv ! cursor st2)), st2))"
    by (rule scan_arguments_return)
  moreover have "scan_arguments fl opts argv ?init = scan_arguments fl opts argv st2"
    using scan_arguments_iterate_loop [OF assms(1)] scan_arguments_iterate_loop [OF assms(3)]
    by simp
  ultimately show ?thesis
    by (simp add: parse_arguments_def)
qed

theorem duplicate_option_is_reported_witness:
  "example_parse no_float_ops [''prog'', ''-n'', ''5'', ''--number'', ''6''] uninitialised
     = Some (Returned ''Duplicate option found: number'',
             uninitialised(3 := String_val ''default'', 1 := Bool_val False, 0 := Bool_val False,
               2 := Int_val 5),
             Some [])"
proof -
  let ?argv = "[''prog'', ''-n'', ''5'', ''--number'', ''6'']"
  let ?opts = "fst (example_opts uninitialised)"
  let ?vars = "snd (example_opts uninitialised)"
  let ?st1 = "initial_state ?opts (Some []) ?vars"
  let ?st2 = "\<lparr>cursor = 3, end_of_options_reached = False,
               found_options = [False, False, True, False],
               variables = ?vars(2 := Int_val 5), positional_arguments = Some []\<rparr>"
  have h1: "iterate_loop no_float_ops ?opts ?argv 0 ?st1 = Some ?st1"
    by simp
  have h2: "matched_at ?opts ?argv ?st1 = Some 2"
    by (simp add: example_specifiers initial_state_def match_defs)
  have h3: "iterate_loop no_float_ops ?opts ?argv (Suc 0) ?st1 = Some ?st2"
    by (simp add: example_specifiers initial_state_def run_defs)
  have h4: "matched_at ?opts ?argv ?st2 = Some 2"
    by (simp add: example_specifiers match_defs)
  from duplicate_option_is_reported [OF h1 h2 h3 h4] show ?thesis
    by (simp add: example_parse_eq example_variables option_token_def)
qed

subsection \<open>Integer values\<close>

lemma from_string_integral:
  assumes "integral T"
  shows "fst (from_string fl T s t vars) = (snd (integral_parse T s) = length s)"
  using assms
  by (cases T) (auto simp: integral_def from_string_INTEGRAL_def split: prod.splits)

text \<open>
  C6. For a descriptor of an integral type: when the loop reaches a first occurrence of its
  option, followed by a value whose parse does not end at the end of the value,
  \<open>from_string\<close> reports failure and \<open>parse_arguments\<close> returns the message that cites the
  value and the option token. The example: \<^verbatim>\<open>prog -n abc\<close> yields a message with
  \<^verbatim>\<open>abc\<close> and \<^verbatim>\<open>n\<close>.
\<close>

theorem integral_value_not_fully_parsed:
  assumes "integral T"
    and "iterate_loop fl opts argv k (initial_state opts positional vars) = Some st"
    and "matched_at opts argv st = Some n"
    and "\<not> found_options st ! n"
    and "Type (opts ! n) = Reads T"
    and "cursor st + 1 < length argv"
    and "snd (integral_parse T (argv ! (cursor st + 1))) \<noteq> length (argv ! (cursor st + 1))"
  shows "\<not> fst (from_string fl T (argv ! (cursor st + 1)) (Value (opts ! n)) (variables st))
         \<and> (\<exists>vars'. parse_arguments fl argv opts positional vars
               = Some (Returned (''Unable to parse value '' @ [dquote] @ argv ! (cursor st + 1)
                         @ [dquote] @ '' for option ''
                         @ option_token (end_of_options_reached st) (argv ! cursor st)),
                       vars', positional_arguments st))"
proof -
  let ?opt = "option_token (end_of_options_reached st) (argv ! cursor st)"
  let ?arg = "argv ! (cursor st + 1)"
  let ?read = "from_string fl T ?arg (Value (opts ! n)) (variables st)"
  have fails: "\<not> fst ?read"
    using assms(1,7) by (simp add: from_string_integral)
  then obtain vars' where rd: "?read = (False, vars')"
    by (cases ?read) simp
  have m: "find_match opts ?opt
             = \<lparr>Matched = True, ReadsValue = True, Index = n,
                FillValue = Some (T, Value (opts ! n))\<rparr>"
    using matched_atD(7) [OF assms(3)] assms(5) by (simp add: create_option_match_def)
  have "loop_body fl opts argv st
          = Inl (Returned (''Unable to parse value '' @ [dquote] @ ?arg @ [dquote]
                   @ '' for option '' @ ?opt),
                 st\<lparr>found_options := (found_options st)[n := True], cursor := cursor st + 1,
                    variables := vars'\<rparr>)"
    using matched_atD(1-3) [OF assms(3)] assms(4,6) rd m
    by (simp add: loop_body_def Let_def ReadValue_def)
  with matched_atD(1) [OF assms(3)]
  have "scan_arguments fl opts argv st
          = Some (Inl (Returned (''Unable to parse value '' @ [dquote] @ ?arg @ [dquote]
                   @ '' for option '' @ ?opt),
                 st\<lparr>found_options := (found_options st)[n := True], cursor := cursor st + 1,
                    variables := vars'\<rparr>))"
    by (rule scan_arguments_return)
  with scan_arguments_iterate_loop [OF assms(2)] fails show ?thesis
    by (simp add: parse_arguments_def)
qed

theorem integral_value_not_fully_parsed_witness:
  "\<not> fst (from_string no_float_ops T_int ''abc'' 2 (snd (example_opts uninitialised)))
   \<and> (\<exists>vars'. example_parse no_float_ops [''prog'', ''-n'', ''abc''] uninitialised
         = Some (Returned (''Unable to parse value '' @ [dquote] @ ''abc'' @ [dquote]
                   @ '' for option n''), vars', Some []))"
proof -
  let ?argv = "[''prog'', ''-n'', ''abc'']"
  let ?opts = "fst (example_opts uninitialised)"
  let ?vars = "snd (example_opts uninitialised)"
  let ?st = "initial_state ?opts (Some []) ?vars"
  have h1: "integral T_int"
    by (simp add: integral_def)
  have h2: "iterate_loop no_float_ops ?opts ?argv 0 ?st = Some ?st"
    by simp
  have h3: "matched_at ?opts ?argv ?st = Some 2"
    by (simp add: example_specifiers initial_state_def match_defs)
  have h4: "\<not> found_options ?st ! 2"
    by (simp add: example_specifiers initial_state_def)
  have h5: "Type (?opts ! 2) = Reads T_int"
    by (simp add: example_specifiers)
  have h6: "cursor ?st + 1 < length ?argv"
    by (simp add: initial_state_def)
  have h7: "snd (integral_parse T_int (?argv ! (cursor ?st + 1)))
              \<noteq> length (?argv ! (cursor ?st + 1))"
    by (simp add: initial_state_def strtol_def strto_signed_def subject_sequence_def
          has_sign_def has_hex_prefix_def is_digit_in_def digit_value_def isspace_def Let_def)
  from integral_value_not_fully_parsed [OF h1 h2 h3 h4 h5 h6 h7] show ?thesis
    by (simp add: example_parse_eq example_specifiers initial_state_def option_token_def)
qed

lemma subject_sequence_empty: "subject_sequence [] = None"
  by (simp add: subject_sequence_def has_sign_def has_hex_prefix_def)

text \<open>
  C9. For every integral type, \<open>from_string\<close> on the empty string reports success and stores
  0: no conversion is performed, so the end pointer is the start of the string, which is
  also its end.
\<close>

theorem from_string_empty_string:
  assumes "integral T"
  shows "from_string fl T [] t vars = (True, vars(t := Int_val 0))"
  using assms
  by (cases T)
     (simp_all add: integral_def from_string_INTEGRAL_def strtol_def strtoll_def strtoul_def
        strtoull_def strto_signed_def strto_unsigned_def subject_sequence_empty)

theorem from_string_empty_string_witness:
  "integral T_int
   \<and> from_string no_float_ops T_int [] 2 uninitialised = (True, uninitialised(2 := Int_val 0))"
proof -
  have h: "integral T_int"
    by (simp add: integral_def)
  from h from_string_empty_string [OF h, of no_float_ops 2 uninitialised] show ?thesis
    by simp
qed

text \<open>
  A parse that reaches the end of a string ends on a digit. So a non-empty value whose last
  character is not a hexadecimal digit is never parsed to its end, whatever the integral type.
\<close>

lemma is_digit_in_mono: "is_digit_in b c \<Longrightarrow> b \<le> b' \<Longrightarrow> is_digit_in b' c"
  by (auto simp: is_digit_in_def split: option.splits)

lemma subject_sequence_to_the_end:
  assumes "subject_sequence s = Some (negative, magnitude, length s)"
  shows "s \<noteq> [] \<and> is_digit_in 16 (last s)"
proof -
  define after_space where "after_space = dropWhile isspace s"
  define after_sign where
    "after_sign = (if has_sign after_space then tl after_space else after_space)"
  define hex where "hex = has_hex_prefix after_sign"
  define base :: nat where
    "base = (if hex then 16 else if take 1 after_sign = ''0'' then 8 else 10)"
  define after_prefix where "after_prefix = (if hex then drop 2 after_sign else after_sign)"
  define ds where "ds = takeWhile (is_digit_in base) after_prefix"
  have "s = takeWhile isspace s @ after_space"
    by (simp add: after_space_def)
  moreover have "\<exists>p. after_space = p @ after_sign"
  proof (cases "has_sign after_space")
    case True
    then have "after_space = [hd after_space] @ after_sign"
      by (cases after_space) (simp_all add: after_sign_def has_sign_def)
    then show ?thesis ..
  next
    case False
    then show ?thesis by (simp add: after_sign_def)
  qed
  moreover have "\<exists>p. after_sign = p @ after_prefix"
  proof (cases hex)
    case True
    then have "after_sign = take 2 after_sign @ after_prefix"
      by (simp add: after_prefix_def)
    then show ?thesis ..
  next
    case False
    then show ?thesis by (simp add: after_prefix_def)
  qed
  ultimately obtain p where s: "s = p @ after_prefix"
    by (metis append.assoc)
  from assms have nonempty: "ds \<noteq> []"
    and e: "length s - length after_prefix + length ds = length s"
    by (auto simp: subject_sequence_def Let_def after_space_def after_sign_def hex_def
          base_def after_prefix_def ds_def split: if_splits)
  from e s have "length ds = length after_prefix"
    by simp
  moreover have "ds @ dropWhile (is_digit_in base) after_prefix = after_prefix"
    by (simp add: ds_def)
  ultimately have "dropWhile (is_digit_in base) after_prefix = []"
    by (metis append_eq_conv_conj drop_all order_refl)
  then have digits: "\<forall>c\<in>set after_prefix. is_digit_in base c"
    by simp
  then have "ds = after_prefix"
    by (simp add: ds_def)
  with nonempty have ne: "after_prefix \<noteq> []"
    by simp
  with digits have "is_digit_in base (last after_prefix)"
    by simp
  moreover have "base \<le> 16"
    by (simp add: base_def)
  ultimately have "is_digit_in 16 (last after_prefix)"
    by (rule is_digit_in_mono)
  with s ne show ?thesis
    by simp
qed

lemma integral_parse_cases:
  "integral_parse T s = strto_signed 64 s \<or> integral_parse T s = strto_unsigned 64 s"
  by (cases T) (simp_all add: strtol_def strtoll_def strtoul_def strtoull_def)

theorem trailing_character_not_consumed:
  assumes "s \<noteq> []" and "\<not> is_digit_in 16 (last s)"
  shows "snd (integral_parse T s) \<noteq> length s"
proof
  assume full: "snd (integral_parse T s) = length s"
  show False
  proof (cases "subject_sequence s")
    case None
    with integral_parse_cases [of T s] have "snd (integral_parse T s) = 0"
      by (auto simp: strto_signed_def strto_unsigned_def)
    with full assms(1) show False
      by simp
  next
    case (Some r)
    obtain negative magnitude e where r: "r = (negative, magnitude, e)"
      by (cases r)
    with Some integral_parse_cases [of T s] have "snd (integral_parse T s) = e"
      by (auto simp: strto_signed_def strto_unsigned_def)
    with full Some r have "subject_sequence s = Some (negative, magnitude, length s)"
      by simp
    from subject_sequence_to_the_end [OF this] assms(2) show False
      by simp
  qed
qed

theorem trailing_character_not_consumed_witness:
  "''12k'' \<noteq> [] \<and> \<not> is_digit_in 16 (last ''12k'')
   \<and> snd (integral_parse T_int ''12k'') \<noteq> length ''12k''"
proof -
  have h1: "''12k'' \<noteq> []"
    by simp
  have h2: "\<not> is_digit_in 16 (last ''12k'')"
    by (simp add: is_digit_in_def digit_value_def)
  from h1 h2 trailing_character_not_consumed [OF h1 h2, of T_int] show ?thesis
    by simp
qed

subsection \<open>Required options\<close>

lemma traverse_tuple_end: "length ts \<le> N \<Longrightarrow> traverse_tuple f N ts s = s"
  by (simp add: traverse_tuple.simps [of f N])

lemma traverse_tuple_step:
  "N < length ts \<Longrightarrow> traverse_tuple f N ts s = traverse_tuple f (Suc N) ts (f (ts ! N) N s)"
  by (simp add: traverse_tuple.simps [of f N])

lemma missing_required_step:
  assumes "N < length opts" and "length found = length opts"
  shows "missing_required (drop N opts) (drop N found)
           = (if Required (opts ! N) \<and> \<not> found ! N then [opts ! N] else [])
             @ missing_required (drop (Suc N) opts) (drop (Suc N) found)"
proof -
  from assms have "drop N opts = opts ! N # drop (Suc N) opts"
    and "drop N found = found ! N # drop (Suc N) found"
    by (simp_all add: Cons_nth_drop_Suc)
  then show ?thesis
    by (simp add: missing_required_def)
qed

lemma traverse_CheckRequiredOptions:
  assumes "required_have_spelling opts" and "length found = length opts"
  shows "traverse_tuple CheckRequiredOptions_call N opts
           (Inr \<lparr>FoundOptions = found, Failed = failed, ErrorAccumulator = acc\<rparr>)
         = Inr \<lparr>FoundOptions = found,
                Failed = (failed \<or> missing_required (drop N opts) (drop N found) \<noteq> []),
                ErrorAccumulator =
                  acc @ concat (map missing_line (missing_required (drop N opts) (drop N found)))\<rparr>"
proof (induction "length opts - N" arbitrary: N failed acc)
  case 0
  then show ?case
    by (simp add: traverse_tuple_end missing_required_def)
next
  case (Suc d)
  then have inside: "N < length opts" and d: "d = length opts - Suc N"
    by simp_all
  from inside assms(1) have spelled:
    "Required (opts ! N) \<and> LongOpt (opts ! N) = [] \<longrightarrow> ShortOpt (opts ! N) \<noteq> NUL"
    by (simp add: required_have_spelling_def list_all_length)
  show ?case
  proof (cases "Required (opts ! N) \<and> \<not> found ! N")
    case True
    with spelled have call: "CheckRequiredOptions_call (opts ! N) N
              (Inr \<lparr>FoundOptions = found, Failed = failed, ErrorAccumulator = acc\<rparr>)
            = Inr \<lparr>FoundOptions = found, Failed = True,
                   ErrorAccumulator = acc @ missing_line (opts ! N)\<rparr>"
      by (simp add: CheckRequiredOptions_call_def missing_line_def)
    from True have "missing_required (drop N opts) (drop N found)
                      = opts ! N # missing_required (drop (Suc N) opts) (drop (Suc N) found)"
      by (simp add: missing_required_step [OF inside assms(2)])
    then show ?thesis
      by (simp add: traverse_tuple_step [OF inside] call Suc.hyps(1) [OF d])
  next
    case False
    then have call: "CheckRequiredOptions_call (opts ! N) N
              (Inr \<lparr>FoundOptions = found, Failed = failed, ErrorAccumulator = acc\<rparr>)
            = Inr \<lparr>FoundOptions = found, Failed = failed, ErrorAccumulator = acc\<rparr>"
      by (auto simp add: CheckRequiredOptions_call_def)
    from False have "missing_required (drop N opts) (drop N found)
                      = missing_required (drop (Suc N) opts) (drop (Suc N) found)"
      by (simp only: missing_required_step [OF inside assms(2)] if_False append_Nil)
    then show ?thesis
      by (simp add: traverse_tuple_step [OF inside] call Suc.hyps(1) [OF d])
  qed
qed

lemma check_required_options_report:
  assumes "required_have_spelling opts" and "length found = length opts"
  shows "check_required_options opts found
           = Returned (concat (map missing_line (missing_required opts found)))"
  by (simp add: check_required_options_def traverse_CheckRequiredOptions [OF assms])

text \<open>
  The seen-flags at the end of a scan say which descriptors were supplied: a flag is set by the
  run that matches a token to its descriptor, by no other run, and it stays set.
\<close>

lemma loop_body_found_new:
  assumes "loop_body fl opts argv st = Inr st'" and "cursor st < length argv"
    and "\<not> found_options st ! n" and "found_options st' ! n"
  shows "matched_at opts argv st = Some n"
proof -
  have other: "(found_options st)[k := True] ! n \<Longrightarrow> k = n" for k
    using assms(3) by (cases "k = n") simp_all
  from assms show ?thesis
    by (auto simp: loop_body_def matched_at_def Let_def
          split: if_splits option.splits prod.splits dest: other)
qed

lemma scan_arguments_found_mono:
  assumes "scan_arguments fl opts argv st = Some r" and "r = Inr final"
    and "found_options st ! n"
  shows "found_options final ! n"
  using assms
proof (induction rule: scan_arguments.raw_induct[rotated 1, consumes 1])
  case (1 scan fl opts argv st r)
  show ?case
  proof (cases "cursor st < length argv")
    case False
    with 1(2,3,4) show ?thesis
      by simp
  next
    case True
    show ?thesis
    proof (cases "loop_body fl opts argv st")
      case (Inl ret)
      with True 1(2,3) show ?thesis
        by simp
    next
      case (Inr st1)
      with True 1(2) have "scan fl opts argv st1 = Some r"
        by simp
      from 1(1) [OF this 1(3) loop_body_found_mono [OF Inr 1(4)]] show ?thesis .
    qed
  qed
qed

lemma scan_arguments_found_origin:
  assumes "scan_arguments fl opts argv st = Some r" and "r = Inr final"
    and "found_options final ! n" and "\<not> found_options st ! n"
  shows "\<exists>k st'. iterate_loop fl opts argv k st = Some st' \<and> matched_at opts argv st' = Some n"
  using assms
proof (induction rule: scan_arguments.raw_induct[rotated 1, consumes 1])
  case (1 scan fl opts argv st r)
  show ?case
  proof (cases "cursor st < length argv")
    case False
    with 1(2,3,4,5) show ?thesis
      by simp
  next
    case True
    show ?thesis
    proof (cases "loop_body fl opts argv st")
      case (Inl ret)
      with True 1(2,3) show ?thesis
        by simp
    next
      case (Inr st1)
      with True 1(2) have next_scan: "scan fl opts argv st1 = Some r"
        by simp
      show ?thesis
      proof (cases "found_options st1 ! n")
        case True
        from loop_body_found_new [OF Inr \<open>cursor st < length argv\<close> 1(5) True]
        have "iterate_loop fl opts argv 0 st = Some st \<and> matched_at opts argv st = Some n"
          by simp
        then show ?thesis
          by blast
      next
        case False
        from 1(1) [OF next_scan 1(3) 1(4) False]
        obtain k st' where "iterate_loop fl opts argv k st1 = Some st'"
          and m: "matched_at opts argv st' = Some n"
          by blast
        with \<open>cursor st < length argv\<close> Inr
        have "iterate_loop fl opts argv (Suc k) st = Some st'"
          by simp
        with m show ?thesis
          by blast
      qed
    qed
  qed
qed

lemma iterate_loop_cursor:
  assumes "scan_arguments fl opts argv st = Some r"
    and "iterate_loop fl opts argv k st = Some st'"
  shows "cursor st + k \<le> cursor st'"
  using assms
proof (induction k arbitrary: st)
  case 0
  then show ?case by simp
next
  case (Suc k)
  from Suc.prems(2) obtain st1 where c: "cursor st < length argv"
    and b: "loop_body fl opts argv st = Inr st1"
    and rest: "iterate_loop fl opts argv k st1 = Some st'"
    by (auto split: if_splits sum.splits)
  from c Suc.prems(1) have "argv ! cursor st \<noteq> ''--''"
    using scan_arguments_at_terminator [of st argv fl opts] by auto
  from loop_body_advances [OF b this] have adv: "cursor st < cursor st1" .
  from c b Suc.prems(1) have "scan_arguments fl opts argv st1 = Some r"
    by (subst (asm) scan_arguments.simps) simp
  from Suc.IH [OF this rest] adv show ?case
    by simp
qed

lemma found_options_supplied:
  assumes "scan_arguments fl opts argv (initial_state opts positional vars) = Some (Inr st)"
    and "n < length opts"
  shows "found_options st ! n = supplied fl argv opts positional vars n"
proof
  let ?init = "initial_state opts positional vars"
  assume "found_options st ! n"
  moreover from assms(2) have "\<not> found_options ?init ! n"
    by (simp add: initial_state_def)
  ultimately obtain k st' where it: "iterate_loop fl opts argv k ?init = Some st'"
    and m: "matched_at opts argv st' = Some n"
    using scan_arguments_found_origin [OF assms(1) refl] by blast
  from iterate_loop_cursor [OF assms(1) it] matched_atD(1) [OF m] have "k < length argv"
    by (simp add: initial_state_def)
  moreover from it m have "matched_in_run fl opts argv ?init k n"
    by (simp add: matched_in_run_def)
  ultimately show "supplied fl argv opts positional vars n"
    by (auto simp: supplied_def list_ex_iff)
next
  let ?init = "initial_state opts positional vars"
  assume "supplied fl argv opts positional vars n"
  then obtain k st' where it: "iterate_loop fl opts argv k ?init = Some st'"
    and m: "matched_at opts argv st' = Some n"
    by (auto simp: supplied_def matched_in_run_def list_ex_iff split: option.splits)
  from scan_arguments_iterate_loop [OF it] assms(1)
  have s: "scan_arguments fl opts argv st' = Some (Inr st)"
    by simp
  have len: "length (found_options st') = length opts"
    using iterate_loop_found_length [OF it] by (simp add: initial_state_def)
  from matched_atD(1) [OF m] have c: "cursor st' < length argv" .
  obtain st1 where b: "loop_body fl opts argv st' = Inr st1"
    and s1: "scan_arguments fl opts argv st1 = Some (Inr st)"
  proof (cases "loop_body fl opts argv st'")
    case (Inl ret)
    with c s show ?thesis
      by (subst (asm) scan_arguments.simps) simp
  next
    case (Inr st1)
    with c s have "scan_arguments fl opts argv st1 = Some (Inr st)"
      by (subst (asm) scan_arguments.simps) simp
    with Inr that show ?thesis
      by blast
  qed
  from loop_body_sets_found [OF m b len] have "found_options st1 ! n" .
  from scan_arguments_found_mono [OF s1 refl this] show "found_options st ! n" .
qed

text \<open>
  C7. When the loop ends without a return, and every required descriptor has a spelling: the
  seen-flag of each descriptor says whether a token of the arguments was matched to it, and
  \<open>parse_arguments\<close> returns one line for each descriptor that is required and was not
  supplied, in declaration order, naming it by \<^verbatim>\<open>--\<close> and its long spelling if it has
  one and by \<^verbatim>\<open>-\<close> and its short spelling otherwise. Descriptors that were supplied or
  are not required get no line, and with no line the result is the empty string.
\<close>

theorem missing_required_options_are_reported:
  assumes "scan_arguments fl opts argv (initial_state opts positional vars) = Some (Inr st)"
    and "required_have_spelling opts"
  shows "found_options st = map (supplied fl argv opts positional vars) [0..<length opts]
         \<and> parse_arguments fl argv opts positional vars
           = Some (Returned (concat (map missing_line
                     (missing_required opts
                        (map (supplied fl argv opts positional vars) [0..<length opts])))),
                   variables st, positional_arguments st)"
proof -
  from scan_arguments_found_length [OF assms(1)]
  have len: "length (found_options st) = length opts"
    by (simp add: initial_state_def)
  have eq: "found_options st = map (supplied fl argv opts positional vars) [0..<length opts]"
    by (rule nth_equalityI) (simp_all add: len found_options_supplied [OF assms(1)])
  from assms len have "parse_arguments fl argv opts positional vars
           = Some (Returned (concat (map missing_line
                     (missing_required opts (found_options st)))),
                   variables st, positional_arguments st)"
    by (simp add: parse_arguments_def check_required_options_report)
  with eq show ?thesis
    by simp
qed

theorem missing_required_options_are_reported_witness:
  "map (supplied no_float_ops [''prog'', ''--alpha'', ''1''] two_required (Some []) uninitialised)
     [0..<length two_required] = [True, False]
   \<and> parse_arguments no_float_ops [''prog'', ''--alpha'', ''1''] two_required (Some [])
       uninitialised
     = Some (Returned (''Missing required option '' @ [dquote] @ ''-b'' @ [dquote, newline]),
             uninitialised(0 := Int_val 1), Some [])"
proof -
  let ?argv = "[''prog'', ''--alpha'', ''1'']"
  let ?st = "\<lparr>cursor = 3, end_of_options_reached = False, found_options = [True, False],
              variables = uninitialised(0 := Int_val 1), positional_arguments = Some []\<rparr>"
  have h1: "scan_arguments no_float_ops two_required ?argv
              (initial_state two_required (Some []) uninitialised) = Some (Inr ?st)"
    by (simp add: two_required_def Option_value_def run_defs)
  have h2: "required_have_spelling two_required"
    by (simp add: two_required_def Option_value_def required_have_spelling_def)
  from missing_required_options_are_reported [OF h1 h2]
  have seen: "map (supplied no_float_ops ?argv two_required (Some []) uninitialised)
                [0..<length two_required] = [True, False]"
    and result: "parse_arguments no_float_ops ?argv two_required (Some []) uninitialised
      = Some (Returned (concat (map missing_line
                (missing_required two_required
                   (map (supplied no_float_ops ?argv two_required (Some []) uninitialised)
                      [0..<length two_required])))),
              uninitialised(0 := Int_val 1), Some [])"
    by simp_all
  have "concat (map missing_line (missing_required two_required [True, False]))
          = ''Missing required option '' @ [dquote] @ ''-b'' @ [dquote, newline]"
    by (simp add: two_required_def Option_value_def missing_required_def missing_line_def)
  with seen result show ?thesis
    by simp
qed

subsection \<open>The usage string\<close>

lemma traverse_tuple_fold:
  assumes "\<And>a i s. f a i s = g a s"
  shows "traverse_tuple f N ts s = fold g (drop N ts) s"
proof (induction "length ts - N" arbitrary: N s)
  case 0
  then show ?case
    by (simp add: traverse_tuple_end)
next
  case (Suc d)
  then have inside: "N < length ts" and d: "d = length ts - Suc N"
    by simp_all
  from inside have "drop N ts = ts ! N # drop (Suc N) ts"
    by (simp add: Cons_nth_drop_Suc)
  then show ?case
    by (simp add: traverse_tuple_step [OF inside] Suc.hyps(1) [OF d] assms)
qed

lemma MaxOptionLength_call_width:
  "MaxOptionLength_call a i m = max m (option_width a)"
  by (simp add: MaxOptionLength_call_def option_width_def split: option_type.splits)

lemma fold_max_width:
  "fold (\<lambda>a m. max m (option_width a)) xs m = Max (set (m # map option_width xs))"
proof (induction xs arbitrary: m)
  case Nil
  then show ?case by simp
next
  case (Cons x xs)
  have "Max (set (max m (option_width x) # map option_width xs))
          = Max (set (m # map option_width (x # xs)))"
  proof (cases "xs = []")
    case True
    then show ?thesis by (simp add: max.commute)
  next
    case False
    then show ?thesis
      by (simp add: max.assoc)
  qed
  with Cons.IH [of "max m (option_width x)"] show ?case
    by simp
qed

lemma traverse_MaxOptionLength:
  "traverse_tuple MaxOptionLength_call 0 opts 0 = max_option_width opts"
proof -
  have "traverse_tuple MaxOptionLength_call 0 opts 0
          = fold (\<lambda>a m. max m (option_width a)) (drop 0 opts) 0"
    by (rule traverse_tuple_fold) (rule MaxOptionLength_call_width)
  then show ?thesis
    by (simp add: fold_max_width max_option_width_def)
qed

lemma option_width_le_max:
  "a \<in> set opts \<Longrightarrow> option_width a \<le> max_option_width opts"
  by (simp add: max_option_width_def)

lemma length_usage_columns:
  assumes "option_width a \<le> pad"
  shows "length (usage_columns pad a) = pad + 9"
  using assms
  by (auto simp: usage_columns_def Let_def MaxOptionLength_call_width option_width_def
        split: option_type.splits)

lemma fold_UsagePrinter:
  "fold (\<lambda>a p. p\<lparr>UsageAccumulator := UsageAccumulator p @ (usage_columns (LengthPad p) a @ HelpString a
                              @ usage_default fl vars a @ [newline])\<rparr>)
        xs p
     = p\<lparr>UsageAccumulator :=
           UsageAccumulator p @ concat (map (\<lambda>a. usage_columns (LengthPad p) a @ HelpString a
                                @ usage_default fl vars a @ [newline]) xs)\<rparr>"
  by (induction xs arbitrary: p) simp_all

lemma traverse_UsagePrinter:
  "traverse_tuple (UsagePrinter_call fl vars) 0 opts p
     = p\<lparr>UsageAccumulator :=
           UsageAccumulator p @ concat (map (\<lambda>a. usage_columns (LengthPad p) a @ HelpString a
                                @ usage_default fl vars a @ [newline]) opts)\<rparr>"
proof -
  have "traverse_tuple (UsagePrinter_call fl vars) 0 opts p
          = fold (\<lambda>a p. p\<lparr>UsageAccumulator :=
                            UsageAccumulator p @ (usage_columns (LengthPad p) a @ HelpString a
                              @ usage_default fl vars a @ [newline])\<rparr>)
              (drop 0 opts) p"
    by (rule traverse_tuple_fold) (simp add: UsagePrinter_call_def)
  then show ?thesis
    by (simp add: fold_UsagePrinter)
qed

text \<open>
  C8. The usage string is the header line followed by one entry per descriptor, in declaration
  order; each entry is the columns for the spellings and the type tag, the help string, the
  default and a newline. In every entry the help string starts at the same offset: 9 more than
  the maximum, over all descriptors, of the width of the long spelling and type tag. The
  short and long spellings, their lengths and the type tag of the descriptor do not move it.
\<close>

theorem usage_string_help_column:
  "usage_string fl vars program_name opts positional_arguments_enabled positional_argument_type
     = usage_header program_name positional_arguments_enabled positional_argument_type
       @ concat (map (\<lambda>a. usage_columns (max_option_width opts) a @ HelpString a
                            @ usage_default fl vars a @ [newline]) opts)
   \<and> list_all (\<lambda>a. length (usage_columns (max_option_width opts) a) = max_option_width opts + 9)
        opts"
proof
  show "usage_string fl vars program_name opts positional_arguments_enabled
          positional_argument_type
        = usage_header program_name positional_arguments_enabled positional_argument_type
          @ concat (map (\<lambda>a. usage_columns (max_option_width opts) a @ HelpString a
                               @ usage_default fl vars a @ [newline]) opts)"
    by (simp add: usage_string_def Let_def traverse_MaxOptionLength traverse_UsagePrinter)
  show "list_all (\<lambda>a. length (usage_columns (max_option_width opts) a)
                        = max_option_width opts + 9) opts"
    by (simp add: list_all_iff length_usage_columns option_width_le_max)
qed

theorem usage_string_help_column_witness:
  "max_option_width (fst (example_opts uninitialised)) = 22
   \<and> list_all (\<lambda>a. length (usage_columns 22 a) = 31) (fst (example_opts uninitialised))"
proof -
  have w: "max_option_width (fst (example_opts uninitialised)) = 22"
    by (simp add: example_specifiers max_option_width_def option_width_def)
  from usage_string_help_column
         [of no_float_ops uninitialised "''ExampleProgram''" "fst (example_opts uninitialised)"
            True "''file''"]
  show ?thesis
    by (simp add: w)
qed

subsection \<open>The two prefixes\<close>

lemma option_token_long: "option_token False (''--'' @ [c]) = [c]"
  by (simp add: option_token_def)

lemma option_token_short: "x \<noteq> CHR ''-'' \<Longrightarrow> option_token False (''-'' @ [x]) = [x]"
  by (simp add: option_token_def)

lemma find_match_first_passing:
  assumes "n < length opts" and "short_test (opts ! n) t \<or> long_test (opts ! n) t"
  shows "(\<exists>m\<le>n. find_match opts t = create_option_match (opts ! m) m
            \<and> (short_test (opts ! m) t \<or> long_test (opts ! m) t)
            \<and> (\<forall>k<m. \<not> (short_test (opts ! k) t \<or> long_test (opts ! k) t)))
         \<and> ((\<forall>k<n. \<not> (short_test (opts ! k) t \<or> long_test (opts ! k) t))
              \<longrightarrow> find_match opts t = create_option_match (opts ! n) n)"
proof -
  let ?m = "Index (find_match_from 0 opts t)"
  from find_match_from_first [OF _ assms, of 0]
  have matched: "Matched (find_match_from 0 opts t)" and le: "?m \<le> n"
    by simp_all
  from find_match_from_Matched [OF matched]
  have here: "find_match opts t = create_option_match (opts ! ?m) ?m"
    and passes: "short_test (opts ! ?m) t \<or> long_test (opts ! ?m) t"
    by (simp_all add: find_match_def)
  have before: "\<forall>k<?m. \<not> (short_test (opts ! k) t \<or> long_test (opts ! k) t)"
    using find_match_from_skips [OF matched] by blast
  from le here passes before have first: "\<exists>m\<le>n. find_match opts t = create_option_match (opts ! m) m
            \<and> (short_test (opts ! m) t \<or> long_test (opts ! m) t)
            \<and> (\<forall>k<m. \<not> (short_test (opts ! k) t \<or> long_test (opts ! k) t))"
    by blast
  moreover have "find_match opts t = create_option_match (opts ! n) n"
    if "\<forall>k<n. \<not> (short_test (opts ! k) t \<or> long_test (opts ! k) t)"
    using find_match_unshadowed [OF assms that] .
  ultimately show ?thesis
    by blast
qed

text \<open>
  C10, as amended. For a descriptor with short spelling \<open>c\<close>, the token \<^verbatim>\<open>--c\<close> is
  stripped to \<open>c\<close>, which passes the test on \<open>ShortOpt\<close>; for a descriptor whose long
  spelling is the one character \<open>x\<close>, other than \<^verbatim>\<open>-\<close>, the token \<^verbatim>\<open>-x\<close> is
  stripped to \<open>x\<close>, which passes the test on \<open>LongOpt\<close>. In both cases \<^verbatim>\<open>find_match\<close>
  returns the match of the first descriptor, in declaration order, that passes one of the two
  tests on the stripped token: the descriptor itself when no earlier one passes a test.
\<close>

theorem prefix_forms_interchangeable:
  assumes "n < length opts"
  shows "(option_token False (''--'' @ [ShortOpt (opts ! n)]) = [ShortOpt (opts ! n)]
          \<and> short_test (opts ! n) [ShortOpt (opts ! n)]
          \<and> (\<exists>m\<le>n. find_match opts [ShortOpt (opts ! n)] = create_option_match (opts ! m) m
                \<and> (short_test (opts ! m) [ShortOpt (opts ! n)]
                     \<or> long_test (opts ! m) [ShortOpt (opts ! n)])
                \<and> (\<forall>k<m. \<not> (short_test (opts ! k) [ShortOpt (opts ! n)]
                                \<or> long_test (opts ! k) [ShortOpt (opts ! n)])))
          \<and> ((\<forall>k<n. \<not> (short_test (opts ! k) [ShortOpt (opts ! n)]
                          \<or> long_test (opts ! k) [ShortOpt (opts ! n)]))
               \<longrightarrow> find_match opts [ShortOpt (opts ! n)] = create_option_match (opts ! n) n))
       \<and> (LongOpt (opts ! n) = [x] \<and> x \<noteq> CHR ''-'' \<longrightarrow>
            option_token False (''-'' @ [x]) = [x]
            \<and> long_test (opts ! n) [x]
            \<and> (\<exists>m\<le>n. find_match opts [x] = create_option_match (opts ! m) m
                  \<and> (short_test (opts ! m) [x] \<or> long_test (opts ! m) [x])
                  \<and> (\<forall>k<m. \<not> (short_test (opts ! k) [x] \<or> long_test (opts ! k) [x])))
            \<and> ((\<forall>k<n. \<not> (short_test (opts ! k) [x] \<or> long_test (opts ! k) [x]))
                 \<longrightarrow> find_match opts [x] = create_option_match (opts ! n) n))"
proof -
  have s: "short_test (opts ! n) [ShortOpt (opts ! n)]"
    by (simp add: short_test_def)
  then have "short_test (opts ! n) [ShortOpt (opts ! n)]
               \<or> long_test (opts ! n) [ShortOpt (opts ! n)]"
    by simp
  note first = find_match_first_passing [OF assms this]
  have second: "long_test (opts ! n) [x]
     \<and> (\<exists>m\<le>n. find_match opts [x] = create_option_match (opts ! m) m
                  \<and> (short_test (opts ! m) [x] \<or> long_test (opts ! m) [x])
                  \<and> (\<forall>k<m. \<not> (short_test (opts ! k) [x] \<or> long_test (opts ! k) [x])))
     \<and> ((\<forall>k<n. \<not> (short_test (opts ! k) [x] \<or> long_test (opts ! k) [x]))
                 \<longrightarrow> find_match opts [x] = create_option_match (opts ! n) n)"
    if "LongOpt (opts ! n) = [x]"
  proof -
    from that have l: "long_test (opts ! n) [x]"
      by (simp add: long_test_def)
    then have "short_test (opts ! n) [x] \<or> long_test (opts ! n) [x]"
      by simp
    from find_match_first_passing [OF assms this] l show ?thesis
      by blast
  qed
  from s first second option_token_long [of "ShortOpt (opts ! n)"] option_token_short [of x]
  show ?thesis
    by blast
qed

theorem prefix_forms_interchangeable_witness:
  "option_token False ''--c'' = ''c''
   \<and> find_match [one_letter_option] ''c'' = create_option_match one_letter_option 0
   \<and> option_token False ''-x'' = ''x''
   \<and> find_match [one_letter_option] ''x'' = create_option_match one_letter_option 0"
proof -
  have h: "0 < length [one_letter_option]"
    by simp
  from prefix_forms_interchangeable [OF h, of "CHR ''x''"] show ?thesis
    by (simp add: one_letter_option_def Option_value_def)
qed

text \<open>
  The claim as stated fails in two ways. For the long spelling \<^verbatim>\<open>-\<close> the token
  \<^verbatim>\<open>--\<close> is the terminator: it is not an option token and it is matched to nothing. And
  a descriptor with short spelling \<open>c\<close> that stands after one with long spelling \<open>c\<close> is
  not the one \<^verbatim>\<open>--c\<close> is matched to: the earlier descriptor is, by its \<open>LongOpt\<close>.
\<close>

theorem dash_long_spelling_counterexample:
  "LongOpt dash_option = ''-''
   \<and> option_token False (''-'' @ LongOpt dash_option) = []
   \<and> \<not> Matched (find_match [dash_option] (option_token False (''-'' @ LongOpt dash_option)))
   \<and> matched_at [dash_option] [''prog'', ''-'' @ LongOpt dash_option]
        (initial_state [dash_option] None uninitialised) = None
   \<and> ShortOpt (shadowed ! 1) = CHR ''c''
   \<and> find_match shadowed (option_token False (''--'' @ [ShortOpt (shadowed ! 1)]))
        = create_option_match (shadowed ! 0) 0
   \<and> \<not> short_test (shadowed ! 0) [ShortOpt (shadowed ! 1)]"
  by (simp add: dash_option_def shadowed_def Option_value_def match_defs initial_state_def
        short_test_def)

end
